theory Spec2Isabelle
  imports Complex_Main "HOL-Library.Sublist" "HOL-Library.AList"
begin

section \<open>Python values, exceptions and strings\<close>

text \<open>
  The exceptions that \<^verbatim>\<open>bytelatent/eval.py\<close> can raise. \<open>ConfigurationError\<close> is the
  name the specification uses in its error taxonomy; no statement of the source raises
  it. \<open>ExternalError\<close> stands for any exception raised inside a collaborator (the
  generator, the checkpoint loader).
\<close>

datatype error =
    AssertionError
  | ValueError
  | TypeError
  | IndexError
  | ZeroDivisionError
  | NotImplementedError
  | NameError
  | ConfigurationError
  | ExternalError string

text \<open>
  The Python values that travel through the harness: generation parameters and results.
  Numbers are one constructor, since Python's \<^verbatim>\<open>==\<close> identifies \<^verbatim>\<open>0\<close>, \<^verbatim>\<open>0.0\<close> and
  \<^verbatim>\<open>False\<close>; floats are read as real numbers.
\<close>

datatype pyval =
    PNone
  | PNum real
  | PStr string
  | PList "pyval list"
  | PTuple "pyval list"

type_synonym dict = "string \<rightharpoonup> pyval"

text \<open>\<^verbatim>\<open>d.get(k, default)\<close>\<close>

definition dict_get :: "dict \<Rightarrow> string \<Rightarrow> pyval \<Rightarrow> pyval" where
  "dict_get d k dflt = (case d k of None \<Rightarrow> dflt | Some v \<Rightarrow> v)"

text \<open>
  \<^verbatim>\<open>s.replace(old, new)\<close>: every non-overlapping occurrence of \<open>old\<close>, scanning from the
  left, is replaced. With an empty \<open>old\<close> Python puts \<open>new\<close> before every character and
  at the end.
\<close>

fun replace_nonempty :: "string \<Rightarrow> string \<Rightarrow> string \<Rightarrow> string" where
  "replace_nonempty old new [] = []"
| "replace_nonempty old new (c # cs) =
     (if prefix old (c # cs)
      then new @ replace_nonempty old new (drop (length old - 1) cs)
      else c # replace_nonempty old new cs)"

definition str_replace :: "string \<Rightarrow> string \<Rightarrow> string \<Rightarrow> string" where
  "str_replace s old new =
     (if old = [] then new @ concat (map (\<lambda>c. c # new) s)
      else replace_nonempty old new s)"

text \<open>
  \<^verbatim>\<open>for e in v\<close>: a list or tuple yields its elements, a string its characters as
  one-character strings; \<^verbatim>\<open>None\<close> and numbers are not iterable.
\<close>

fun py_iter :: "pyval \<Rightarrow> error + pyval list" where
  "py_iter (PList vs) = Inr vs"
| "py_iter (PTuple vs) = Inr vs"
| "py_iter (PStr s) = Inr (map (\<lambda>c. PStr [c]) s)"
| "py_iter PNone = Inl TypeError"
| "py_iter (PNum r) = Inl TypeError"

section \<open>The generator and the harness adapter\<close>

text \<open>
  \<^verbatim>\<open>PackedCausalTransformerGenerator\<close> is a collaborator; the adapter reads and writes
  these of its fields. Its \<^verbatim>\<open>generate\<close> method is a parameter of the model: from the
  generator's configuration and the prompts it returns the generations, the per-position
  log-likelihoods and the per-position greedy indicators, or raises. It is taken not to
  assign the configuration fields itself.
\<close>

record PackedCausalTransformerGenerator =
  temperature :: pyval
  top_p :: pyval
  top_k :: pyval
  until :: pyval
  max_gen_len :: int

type_synonym generations = "string list \<times> real list list \<times> bool list list"

type_synonym generate_fn =
  "PackedCausalTransformerGenerator \<Rightarrow> string list \<Rightarrow> error + generations"

text \<open>
  \<^verbatim>\<open>EvalHarnessLM\<close> holds the generator. \<open>calls\<close> is the history of the invocations of
  \<^verbatim>\<open>generator.generate\<close>: the configuration at the time of the call and the prompts.
\<close>

record EvalHarnessLM =
  generator :: PackedCausalTransformerGenerator
  calls :: "(PackedCausalTransformerGenerator \<times> string list) list"

definition generate :: "generate_fn \<Rightarrow> EvalHarnessLM \<Rightarrow> string list \<Rightarrow>
    EvalHarnessLM \<times> (error + generations)" where
  "generate G self prompts =
     (self\<lparr>calls := calls self @ [(generator self, prompts)]\<rparr>, G (generator self) prompts)"

text \<open>\<^verbatim>\<open>all_dicts_same\<close>, lines 55-61.\<close>

definition all_dicts_same :: "dict list \<Rightarrow> bool" where
  "all_dicts_same dict_list =
     (case dict_list of
        [] \<Rightarrow> True
      | first_dict # _ \<Rightarrow> list_all (\<lambda>d. d = first_dict) dict_list)"

text \<open>The inner loop of \<^verbatim>\<open>generate_until\<close>: \<^verbatim>\<open>for e in until: g = g.replace(e, "")\<close>.\<close>

fun strip_until :: "string \<Rightarrow> pyval list \<Rightarrow> error + string" where
  "strip_until g [] = Inr g"
| "strip_until g (PStr e # es) = strip_until (str_replace g e []) es"
| "strip_until g (_ # es) = Inl TypeError"

text \<open>The outer loop: \<^verbatim>\<open>for g in generations: ...; filtered_gen.append(g)\<close>.\<close>

fun filtered_gen :: "pyval \<Rightarrow> string list \<Rightarrow> error + string list" where
  "filtered_gen u [] = Inr []"
| "filtered_gen u (g # gs) =
     (case py_iter u of
        Inl err \<Rightarrow> Inl err
      | Inr es \<Rightarrow>
          (case strip_until g es of
             Inl err \<Rightarrow> Inl err
           | Inr g' \<Rightarrow>
               (case filtered_gen u gs of
                  Inl err \<Rightarrow> Inl err
                | Inr rest \<Rightarrow> Inr (g' # rest))))"

text \<open>
  \<^verbatim>\<open>EvalHarnessLM.generate_until\<close>, lines 84-103. A request is its \<^verbatim>\<open>args\<close>: the prompt
  and the generation-parameter dict. Unpacking \<^verbatim>\<open>zip(*[])\<close> into two names raises
  \<^verbatim>\<open>ValueError\<close>.
\<close>

definition generate_until :: "generate_fn \<Rightarrow> EvalHarnessLM \<Rightarrow> (string \<times> dict) list \<Rightarrow>
    EvalHarnessLM \<times> (error + string list)" where
  "generate_until G self requests =
     (if requests = [] then (self, Inl ValueError)
      else
        let prompts = map fst requests;
            gen_args = map snd requests
        in if \<not> all_dicts_same gen_args then (self, Inl AssertionError)
           else
             let gen_args0 = hd gen_args;
                 temperature' = dict_get gen_args0 ''temperature'' (PNum 0);
                 top_p' = dict_get gen_args0 ''top_p'' PNone;
                 top_k' = dict_get gen_args0 ''top_k'' PNone;
                 until' = dict_get gen_args0 ''until'' (PList []);
                 self1 = self\<lparr>generator := (generator self)
                           \<lparr>temperature := temperature', top_p := top_p',
                            top_k := top_k', until := until'\<rparr>\<rparr>
             in case generate G self1 prompts of
                  (self2, Inl err) \<Rightarrow> (self2, Inl err)
                | (self2, Inr (gens, _, _)) \<Rightarrow> (self2, filtered_gen until' gens))"

text \<open>
  \<^verbatim>\<open>EvalHarnessLM.loglikelihood\<close>, lines 105-120. A request is the pair of context and
  continuation. \<open>encode\<close> is \<^verbatim>\<open>generator.tokenizer.encode\<close> without BOS and EOS.
  \<^verbatim>\<open>zip\<close> stops at the shortest of its arguments.
\<close>

definition loglikelihood :: "generate_fn \<Rightarrow> (string \<Rightarrow> int list) \<Rightarrow> EvalHarnessLM \<Rightarrow>
    (string \<times> string) list \<Rightarrow> EvalHarnessLM \<times> (error + (real \<times> bool) list)" where
  "loglikelihood G encode self requests =
     (if requests = [] then (self, Inl ValueError)
      else
        let prompts = map fst requests;
            inputs = map (\<lambda>args. fst args @ snd args) requests;
            max_gen_len' = max_gen_len (generator self);
            self1 = self\<lparr>generator := (generator self)\<lparr>max_gen_len := 1\<rparr>\<rparr>
        in case generate G self1 inputs of
             (self2, Inl err) \<Rightarrow> (self2, Inl err)
           | (self2, Inr (_, lls, greedy)) \<Rightarrow>
               let results = map (\<lambda>(p, ll, gr).
                       let p_len = length (encode p)
                       in (sum_list (drop p_len ll), list_all (\<lambda>b. b) (drop p_len gr)))
                     (zip prompts (zip lls greedy))
               in (self2\<lparr>generator := (generator self2)\<lparr>max_gen_len := max_gen_len'\<rparr>\<rparr>,
                   Inr results))"

text \<open>
  \<^verbatim>\<open>EvalHarnessLM.loglikelihood_rolling\<close>, lines 122-133. A request is its first argument.
  Each result is the one-element tuple \<^verbatim>\<open>(ll.sum().item(),)\<close>.
\<close>

definition loglikelihood_rolling :: "generate_fn \<Rightarrow> EvalHarnessLM \<Rightarrow> string list \<Rightarrow>
    EvalHarnessLM \<times> (error + pyval list)" where
  "loglikelihood_rolling G self requests =
     (let prompts = requests;
          max_gen_len' = max_gen_len (generator self);
          self1 = self\<lparr>generator := (generator self)\<lparr>max_gen_len := 1\<rparr>\<rparr>
      in case generate G self1 prompts of
           (self2, Inl err) \<Rightarrow> (self2, Inl err)
         | (self2, Inr (_, lls, _)) \<Rightarrow>
             (self2\<lparr>generator := (generator self2)\<lparr>max_gen_len := max_gen_len'\<rparr>\<rparr>,
              Inr (map (\<lambda>ll. PTuple [PNum (sum_list ll)]) lls)))"

section \<open>The perplexity evaluator\<close>

text \<open>
  A batch of the packing iterator: the arrays \<^verbatim>\<open>x\<close>, \<^verbatim>\<open>y\<close> and the optional \<^verbatim>\<open>mask\<close>,
  each a list of rows.
\<close>

record Batch =
  batch_x :: "int list list"
  batch_y :: "int list list"
  batch_mask :: "bool list list option"

text \<open>\<^verbatim>\<open>y.numel()\<close> and \<^verbatim>\<open>mask.sum().item()\<close>.\<close>

definition numel :: "'a list list \<Rightarrow> nat" where
  "numel t = length (concat t)"

definition mask_sum :: "bool list list \<Rightarrow> nat" where
  "mask_sum m = length (filter (\<lambda>b. b) (concat m))"

text \<open>The fields of \<^verbatim>\<open>train_cfg\<close> and of \<^verbatim>\<open>ValidationArgs\<close> that the evaluation reads.\<close>

record TrainArgs =
  data_root_dir :: string
  data_sources :: "string list"
  tokenizer_name :: string

record ValidationArgs =
  max_n_docs :: "nat option"
  root_dir :: string
  sources :: "string list"

type_synonym metrics = "string \<rightharpoonup> real"

text \<open>
  The collaborators of the evaluation, as far as it calls them: the model's forward pass
  (logits per row and position), the cross-entropy of one position,
  \<^verbatim>\<open>find_and_sanitize_chunks\<close> for the pattern \<^verbatim>\<open>*.val.jsonl\<close>, the batches that the
  iterator chain yields for a chunk and a document limit, the texts that the Arrow
  iterator yields for a chunk, \<^verbatim>\<open>dist_mean_dict\<close>, and what the driver asks of the
  distributed runtime, the file system and the checkpoint loader.
\<close>

record env =
  model :: "int list list \<Rightarrow> real list list list"
  position_loss :: "real list \<Rightarrow> int \<Rightarrow> real"
  find_and_sanitize_chunks :: "string \<Rightarrow> string list"
  packing_iterator :: "string \<Rightarrow> nat option \<Rightarrow> Batch list"
  arrow_texts :: "string \<Rightarrow> string list"
  dist_mean_dict :: "metrics \<Rightarrow> metrics"
  is_initialized :: bool
  fs_exists :: "string \<Rightarrow> bool"
  fs_glob :: "string \<Rightarrow> string list"
  get_global_rank :: nat
  CONSOLIDATE_FOLDER :: string
  consolidate_checkpoints :: "string \<Rightarrow> string"
  load_consolidated_model_and_tokenizer :: "string \<Rightarrow> error + TrainArgs"
  new_generator :: PackedCausalTransformerGenerator

text \<open>
  \<^verbatim>\<open>F.cross_entropy(input, target, reduction="sum")\<close> on the flattened arrays: the sum of
  the losses of the positions; the two arrays must have as many positions.
\<close>

definition cross_entropy_sum :: "(real list \<Rightarrow> int \<Rightarrow> real) \<Rightarrow> real list list \<Rightarrow> int list \<Rightarrow>
    error + real" where
  "cross_entropy_sum pos_loss input target =
     (if length input \<noteq> length target then Inl ValueError
      else Inr (sum_list (map (\<lambda>(p, t). pos_loss p t) (zip input target))))"

text \<open>
  The loop of lines 203-213 over the remaining batches, from the accumulated
  \<^verbatim>\<open>total_loss\<close> and \<^verbatim>\<open>n_bytes\<close>.
\<close>

fun loss_loop :: "env \<Rightarrow> string \<Rightarrow> Batch list \<Rightarrow> real \<times> nat \<Rightarrow> error + real \<times> nat" where
  "loss_loop E name [] acc = Inr acc"
| "loss_loop E name (batch # rest) acc =
     (if name \<in> set [''bytes'', ''blt'']
      then
        let n_bytes' = snd acc +
              (case batch_mask batch of
                 None \<Rightarrow> numel (batch_y batch)
               | Some m \<Rightarrow> mask_sum m);
            pred = model E (batch_x batch)
        in case cross_entropy_sum (position_loss E) (concat pred) (concat (batch_y batch)) of
             Inl err \<Rightarrow> Inl err
           | Inr loss \<Rightarrow> loss_loop E name rest (fst acc + loss, n_bytes')
      else Inl NotImplementedError)"

record ppl_result =
  n_bytes :: nat
  loss_sum :: real
  ppl :: real

text \<open>
  \<^verbatim>\<open>eval_ppl_on_path\<close>, lines 137-218. Floats are read as real numbers, so \<^verbatim>\<open>math.exp\<close>
  is \<open>exp\<close>.
\<close>

definition eval_ppl_on_path :: "env \<Rightarrow> string \<Rightarrow> string \<Rightarrow> nat option \<Rightarrow> error + ppl_result" where
  "eval_ppl_on_path E name path max_docs =
     (let chunks = find_and_sanitize_chunks E path
      in if length chunks \<noteq> 1 then Inl AssertionError
         else
           let chunk = chunks ! 0
           in case loss_loop E name (packing_iterator E chunk max_docs) (0, 0) of
                Inl err \<Rightarrow> Inl err
              | Inr (total_loss, n) \<Rightarrow>
                  Inr \<lparr>n_bytes = n, loss_sum = total_loss,
                       ppl = (if n > 0 then exp (total_loss / real n) else 0)\<rparr>)"



section \<open>Validation on the sources\<close>

text \<open>\<^verbatim>\<open>os.path.join(a, b)\<close> and \<^verbatim>\<open>os.path.basename(p)\<close> of \<^verbatim>\<open>posixpath\<close>.\<close>

definition path_join :: "string \<Rightarrow> string \<Rightarrow> string" where
  "path_join a b =
     (if prefix ''/'' b then b
      else if a = [] \<or> suffix ''/'' a then a @ b
      else a @ ''/'' @ b)"

definition basename :: "string \<Rightarrow> string" where
  "basename p = rev (takeWhile (\<lambda>c. c \<noteq> CHR ''/'') (rev p))"

text \<open>Lines 222-229: the validation sources, then the training sources.\<close>

definition srcs :: "ValidationArgs \<Rightarrow> TrainArgs \<Rightarrow> string list" where
  "srcs val_args train_cfg =
     map (path_join (root_dir val_args)) (sources val_args) @
     map (path_join (data_root_dir train_cfg)) (data_sources train_cfg)"

text \<open>
  Lines 231-254: the dict \<^verbatim>\<open>path_to_iter\<close>, in insertion order, each path with the one
  chunk its iterator reads.
\<close>

fun path_to_iter :: "env \<Rightarrow> string list \<Rightarrow> (string \<times> string) list \<Rightarrow>
    error + (string \<times> string) list" where
  "path_to_iter E [] d = Inr d"
| "path_to_iter E (path # rest) d =
     (let chunks = find_and_sanitize_chunks E path
      in if length chunks \<noteq> 1 then Inl AssertionError
         else path_to_iter E rest (AList.update path (chunks ! 0) d))"

text \<open>
  Lines 270-277: the four lists of \<^verbatim>\<open>metrics\<close>, filled example by example from index
  \<open>i\<close> on. Dividing by the length of an empty vector or text raises.
\<close>

fun metric_lists :: "string list \<Rightarrow> nat \<Rightarrow> real list list \<Rightarrow>
    error + (real \<times> real \<times> real \<times> real) list" where
  "metric_lists texts i [] = Inr []"
| "metric_lists texts i (ll # rest) =
     (let tmp = sum_list ll
      in if length ll = 0 then Inl ZeroDivisionError
         else if \<not> i < length texts then Inl IndexError
         else if length (texts ! i) = 0 then Inl ZeroDivisionError
         else case metric_lists texts (Suc i) rest of
                Inl err \<Rightarrow> Inl err
              | Inr ms \<Rightarrow>
                  Inr ((tmp, tmp / real (length ll), tmp / real (length (texts ! i)),
                        real (length ll)) # ms))"

text \<open>Lines 279-281: the means, then the update with the means across the ranks.\<close>

definition mean :: "real list \<Rightarrow> real" where
  "mean xs = sum_list xs / real (length xs)"

definition source_metrics :: "env \<Rightarrow> (real \<times> real \<times> real \<times> real) list \<Rightarrow> metrics" where
  "source_metrics E ms =
     (let local = (if ms = [] then Map.empty
                   else [''nll'' \<mapsto> mean (map (\<lambda>m. fst m) ms),
                         ''nll_per_token'' \<mapsto> mean (map (\<lambda>m. fst (snd m)) ms),
                         ''nll_per_char'' \<mapsto> mean (map (\<lambda>m. fst (snd (snd m))) ms),
                         ''avg_seqlen'' \<mapsto> mean (map (\<lambda>m. snd (snd (snd m))) ms)])
      in local ++ dist_mean_dict E local)"

text \<open>Lines 262-282: the validation of one source, read from its chunk.\<close>

definition validate_source :: "env \<Rightarrow> generate_fn \<Rightarrow> PackedCausalTransformerGenerator \<Rightarrow>
    string \<Rightarrow> error + metrics" where
  "validate_source E G g chunk =
     (let texts = arrow_texts E chunk
      in case G g texts of
           Inl err \<Rightarrow> Inl err
         | Inr (_, lls, _) \<Rightarrow>
             (case metric_lists texts 0 lls of
                Inl err \<Rightarrow> Inl err
              | Inr ms \<Rightarrow> Inr (source_metrics E ms)))"

text \<open>
  Lines 261-290: the loop over \<^verbatim>\<open>path_to_iter\<close>, from the \<^verbatim>\<open>all_val_metrics\<close> filled so
  far.
\<close>

fun val_loop :: "env \<Rightarrow> generate_fn \<Rightarrow> PackedCausalTransformerGenerator \<Rightarrow>
    (string \<times> string) list \<Rightarrow> (string \<rightharpoonup> metrics) \<Rightarrow> error + (string \<rightharpoonup> metrics)" where
  "val_loop E G g [] all_val_metrics = Inr all_val_metrics"
| "val_loop E G g ((src, chunk) # rest) all_val_metrics =
     (case validate_source E G g chunk of
        Inl err \<Rightarrow> Inl err
      | Inr ms \<Rightarrow>
          let name = basename src;
              name' = (if name \<in> dom all_val_metrics then name @ ''_1'' else name)
          in val_loop E G g rest (all_val_metrics(name' \<mapsto> ms)))"

text \<open>\<^verbatim>\<open>eval_on_val\<close>, lines 221-294.\<close>

definition eval_on_val :: "env \<Rightarrow> generate_fn \<Rightarrow> PackedCausalTransformerGenerator \<Rightarrow>
    ValidationArgs \<Rightarrow> TrainArgs \<Rightarrow>
    PackedCausalTransformerGenerator \<times> (error + (string \<rightharpoonup> metrics))" where
  "eval_on_val E G g val_args train_cfg =
     (case path_to_iter E (srcs val_args train_cfg) [] of
        Inl err \<Rightarrow> (g, Inl err)
      | Inr d \<Rightarrow>
          let max_gen_len' = max_gen_len g;
              g1 = g\<lparr>max_gen_len := 1\<rparr>
          in (case val_loop E G g1 d Map.empty of
                Inl err \<Rightarrow> (g1, Inl err)
              | Inr all_val_metrics \<Rightarrow>
                  (g1\<lparr>max_gen_len := max_gen_len'\<rparr>, Inr all_val_metrics)))"

section \<open>The evaluation driver\<close>

text \<open>The fields of \<^verbatim>\<open>EvalArgs\<close> that \<^verbatim>\<open>launch_eval\<close> reads.\<close>

record EvalArgs =
  ckpt_dir :: string
  dump_dir :: string
  validation :: "ValidationArgs option"
  metric_log_dir :: "string option"
  global_step :: "nat option"

text \<open>
  What a run of the driver does to the outside, in order: the calls that set up the
  process group, consolidate the checkpoint, create the dump directory, write
  \<^verbatim>\<open>config.yaml\<close>, wait at the barrier, load the model, start the perplexity evaluation,
  print its results, construct the generator and the harness adapter, start
  \<^verbatim>\<open>eval_on_val\<close>, write \<^verbatim>\<open>results.json\<close> and \<^verbatim>\<open>validation.json\<close>, and delete the
  generator.
\<close>

datatype event =
    SetupTorchDistributed
  | ConsolidateCheckpoints string
  | Mkdirs string
  | DumpConfig string
  | Barrier
  | LoadModel string
  | EvalPplOnPath
  | PrintValResults
  | ConstructGenerator
  | ConstructEvalHarnessLM
  | EvalOnVal
  | DumpResults string
  | DumpValidation string
  | DeleteGenerator

text \<open>
  A statement of the driver maps the events so far to the events after it and either an
  exception or its value; \<open>bind\<close> is the sequencing of statements, which stops at the
  first exception.
\<close>

type_synonym 'a run = "event list \<Rightarrow> event list \<times> (error + 'a)"

definition ret :: "'a \<Rightarrow> 'a run" where
  "ret a tr = (tr, Inr a)"

definition raise :: "error \<Rightarrow> 'a run" where
  "raise err tr = (tr, Inl err)"

definition emit :: "event \<Rightarrow> unit run" where
  "emit ev tr = (tr @ [ev], Inr ())"

definition lift :: "error + 'a \<Rightarrow> 'a run" where
  "lift r tr = (tr, r)"

definition bind :: "'a run \<Rightarrow> ('a \<Rightarrow> 'b run) \<Rightarrow> 'b run" where
  "bind m f tr =
     (case m tr of
        (tr', Inl err) \<Rightarrow> (tr', Inl err)
      | (tr', Inr a) \<Rightarrow> f a tr')"

text \<open>Lines 301-311: the path of the consolidated checkpoint.\<close>

definition consolidate_path_of :: "env \<Rightarrow> EvalArgs \<Rightarrow> string run" where
  "consolidate_path_of E eval_args =
     (if fs_exists E (ckpt_dir eval_args) \<and>
         fs_exists E (path_join (ckpt_dir eval_args) ''params.json'') \<and>
         length (fs_glob E (path_join (ckpt_dir eval_args) ''*.pth'')) \<noteq> 0
      then ret (ckpt_dir eval_args)
      else
        let consolidate_path = path_join (ckpt_dir eval_args) (CONSOLIDATE_FOLDER E)
        in if \<not> fs_exists E consolidate_path \<and> get_global_rank E = 0
           then bind (emit (ConsolidateCheckpoints (ckpt_dir eval_args)))
                  (\<lambda>_. ret (consolidate_checkpoints E (ckpt_dir eval_args)))
           else ret consolidate_path)"

text \<open>Lines 327-342: the perplexity evaluation, when validation is configured.\<close>

definition ppl_path :: "env \<Rightarrow> EvalArgs \<Rightarrow> TrainArgs \<Rightarrow> unit run" where
  "ppl_path E eval_args train_cfg =
     (case validation eval_args of
        None \<Rightarrow> ret ()
      | Some v \<Rightarrow>
          bind (emit EvalPplOnPath) (\<lambda>_.
          bind (lift (eval_ppl_on_path E (tokenizer_name train_cfg)
                        ''/checkpoint/amaia/explore/datasets/dclm_baseline_1.0/''
                        (max_n_docs v))) (\<lambda>val_results.
          emit PrintValResults)))"

text \<open>
  Lines 346-391, the statements after the \<^verbatim>\<open>raise\<close>. \<^verbatim>\<open>results["results"]\<close> is a list,
  so \<^verbatim>\<open>timestamp | results["results"]\<close> raises \<^verbatim>\<open>TypeError\<close> before the metric log is
  opened.
\<close>

definition harness_path :: "env \<Rightarrow> generate_fn \<Rightarrow> EvalArgs \<Rightarrow> TrainArgs \<Rightarrow> unit run" where
  "harness_path E G eval_args train_cfg =
     bind (emit ConstructGenerator) (\<lambda>_.
     bind (emit ConstructEvalHarnessLM) (\<lambda>_.
     bind (case validation eval_args of
             None \<Rightarrow> ret None
           | Some v \<Rightarrow>
               bind (emit EvalOnVal) (\<lambda>_.
               bind (lift (snd (eval_on_val E G (new_generator E) v train_cfg)))
                 (\<lambda>r. ret (Some r)))) (\<lambda>val_results.
     bind (if get_global_rank E = 0
           then bind (emit (DumpResults (path_join (dump_dir eval_args) ''results.json'')))
                  (\<lambda>_. case val_results of
                          None \<Rightarrow> ret ()
                        | Some r \<Rightarrow>
                            emit (DumpValidation
                                    (path_join (dump_dir eval_args) ''validation.json'')))
           else ret ()) (\<lambda>_.
     bind (if metric_log_dir eval_args \<noteq> None \<and> metric_log_dir eval_args \<noteq> Some [] \<and>
              get_global_rank E = 0
           then raise TypeError
           else ret ()) (\<lambda>_.
     emit DeleteGenerator)))))"

text \<open>
  \<^verbatim>\<open>launch_eval\<close>, lines 297-391. The name \<^verbatim>\<open>NotImplementedException\<close> of line 344 is
  defined nowhere, so evaluating it raises \<^verbatim>\<open>NameError\<close>.
\<close>

definition launch_eval :: "env \<Rightarrow> generate_fn \<Rightarrow> EvalArgs \<Rightarrow> unit run" where
  "launch_eval E G eval_args =
     bind (if \<not> is_initialized E then emit SetupTorchDistributed else ret ()) (\<lambda>_.
     bind (consolidate_path_of E eval_args) (\<lambda>consolidate_path.
     bind (emit (Mkdirs (dump_dir eval_args))) (\<lambda>_.
     bind (emit (DumpConfig (path_join (dump_dir eval_args) ''config.yaml''))) (\<lambda>_.
     bind (emit Barrier) (\<lambda>_.
     bind (emit (LoadModel consolidate_path)) (\<lambda>_.
     bind (lift (load_consolidated_model_and_tokenizer E consolidate_path)) (\<lambda>train_cfg.
     bind (ppl_path E eval_args train_cfg) (\<lambda>_.
     bind (raise NameError :: unit run) (\<lambda>_.
     harness_path E G eval_args train_cfg)))))))))"

text \<open>The events of the statements after the \<^verbatim>\<open>raise\<close> of line 344.\<close>

fun after_abort :: "event \<Rightarrow> bool" where
  "after_abort ConstructGenerator = True"
| "after_abort ConstructEvalHarnessLM = True"
| "after_abort EvalOnVal = True"
| "after_abort (DumpResults p) = True"
| "after_abort (DumpValidation p) = True"
| "after_abort DeleteGenerator = True"
| "after_abort _ = False"

text \<open>
  \<open>quiet Q m\<close>: the statement \<open>m\<close> adds no event of the statements after the
  \<^verbatim>\<open>raise\<close>, and an exception it raises satisfies \<open>Q\<close>. \<open>aborts Q m\<close>: moreover it
  always raises.
\<close>

definition quiet :: "(error \<Rightarrow> bool) \<Rightarrow> 'a run \<Rightarrow> bool" where
  "quiet Q m =
     (\<forall>tr. \<exists>evs r. m tr = (tr @ evs, r) \<and> \<not> list_ex after_abort evs \<and>
        (\<forall>err. r = Inl err \<longrightarrow> Q err))"

definition aborts :: "(error \<Rightarrow> bool) \<Rightarrow> 'a run \<Rightarrow> bool" where
  "aborts Q m =
     (\<forall>tr. \<exists>evs err. m tr = (tr @ evs, Inl err) \<and> \<not> list_ex after_abort evs \<and> Q err)"

section \<open>The specification's reading of stop-string removal\<close>

text \<open>
  Stated from the specification's words, for comparison with \<open>strip_until\<close>: each stop
  string, in the order supplied, is deleted at most once, at any one of its occurrences.
  \<open>stripped_at_most_once stops s\<close> lists every string this reading allows.
\<close>

definition delete_at :: "string \<Rightarrow> nat \<Rightarrow> nat \<Rightarrow> string" where
  "delete_at s i n = take i s @ drop (i + n) s"

definition removed_at_most_once :: "string \<Rightarrow> string \<Rightarrow> string list" where
  "removed_at_most_once e s =
     s # map (\<lambda>i. delete_at s i (length e))
           (filter (\<lambda>i. take (length e) (drop i s) = e) [0..<Suc (length s)])"

fun stripped_at_most_once :: "string list \<Rightarrow> string \<Rightarrow> string list" where
  "stripped_at_most_once [] s = [s]"
| "stripped_at_most_once (e # es) s =
     concat (map (stripped_at_most_once es) (removed_at_most_once e s))"

section \<open>Concrete inputs\<close>

text \<open>Concrete inputs on which the theorems below are evaluated.\<close>

definition example_generator :: PackedCausalTransformerGenerator where
  "example_generator =
     \<lparr>temperature = PNum 1, top_p = PNone, top_k = PNone, until = PList [], max_gen_len = 256\<rparr>"

definition example_harness :: EvalHarnessLM where
  "example_harness = \<lparr>generator = example_generator, calls = []\<rparr>"

definition example_generate :: generate_fn where
  "example_generate g prompts =
     Inr (map (\<lambda>p. ''aXbXc'') prompts, map (\<lambda>p. [- 1, - 2, - 3]) prompts,
          map (\<lambda>p. [True, False, True]) prompts)"

definition failing_generate :: generate_fn where
  "failing_generate g prompts = Inl (ExternalError ''out of memory'')"

text \<open>
  A concrete environment: one batch per chunk, one text per chunk (the name of the chunk),
  no chunk for the path \<^verbatim>\<open>missing\<close>.
\<close>

definition example_batch :: Batch where
  "example_batch =
     \<lparr>batch_x = [[1, 2], [3, 0]], batch_y = [[2, 3], [1, 0]],
      batch_mask = Some [[True, True], [True, False]]\<rparr>"

definition example_train_cfg :: TrainArgs where
  "example_train_cfg = \<lparr>data_root_dir = ''train'', data_sources = [], tokenizer_name = ''bytes''\<rparr>"

definition example_env :: env where
  "example_env =
     \<lparr>model = (\<lambda>x. map (map (\<lambda>t. [0, 0])) x),
      position_loss = (\<lambda>logits t. real_of_int t),
      find_and_sanitize_chunks =
        (\<lambda>path. if path = ''missing'' then [] else [path @ ''/shard.chunk.00.val.jsonl'']),
      packing_iterator =
        (\<lambda>chunk limit. if chunk = ''empty/shard.chunk.00.val.jsonl'' then [] else [example_batch]),
      arrow_texts = (\<lambda>chunk. [chunk]),
      dist_mean_dict = (\<lambda>m. m),
      is_initialized = True,
      fs_exists = (\<lambda>path. True),
      fs_glob = (\<lambda>pattern. [''ckpt/consolidated.pth'']),
      get_global_rank = 0,
      CONSOLIDATE_FOLDER = ''consolidated'',
      consolidate_checkpoints = (\<lambda>dir. dir @ ''/consolidated''),
      load_consolidated_model_and_tokenizer = (\<lambda>path. Inr example_train_cfg),
      new_generator = example_generator\<rparr>"

text \<open>Arguments under which the statements after the \<^verbatim>\<open>raise\<close> would all have work to do.\<close>

definition example_eval_args :: EvalArgs where
  "example_eval_args =
     \<lparr>ckpt_dir = ''ckpt'', dump_dir = ''dump'',
      validation = Some \<lparr>max_n_docs = None, root_dir = ''data'', sources = [''en/val.jsonl'']\<rparr>,
      metric_log_dir = Some ''logs'', global_step = None\<rparr>"

section \<open>Properties of the harness adapter\<close>

lemma all_dicts_same_iff:
  "all_dicts_same ds \<longleftrightarrow> (\<forall>d \<in> set ds. d = hd ds)"
  by (cases ds) (auto simp: all_dicts_same_def list_all_iff)

lemma replace_nonempty_absent:
  "\<not> sublist e s \<Longrightarrow> replace_nonempty e new s = s"
proof (induction s)
  case Nil
  then show ?case by simp
next
  case (Cons c cs)
  have a: "\<not> prefix e (c # cs)" using Cons.prems prefix_imp_sublist by blast
  have "\<not> sublist e cs" using Cons.prems by (simp add: sublist_Cons_right)
  then have b: "replace_nonempty e new cs = cs" by (rule Cons.IH)
  show ?case unfolding replace_nonempty.simps using a b by (simp only: if_False)
qed

lemma replace_nonempty_leftmost:
  "e \<noteq> [] \<Longrightarrow> \<not> sublist e (p @ butlast e) \<Longrightarrow>
   replace_nonempty e new (p @ e @ q) = p @ new @ replace_nonempty e new q"
proof (induction p)
  case Nil
  then obtain c e' where e: "e = c # e'" by (cases e) auto
  show ?case by (simp add: e)
next
  case (Cons a p)
  have np: "\<not> prefix e (a # p @ e @ q)"
  proof
    assume "prefix e (a # p @ e @ q)"
    then have "take (length e) (a # p @ e @ q) = e"
      by (auto simp: prefix_def)
    moreover have "take (length e) (a # p @ e @ q) = take (length e) ((a # p) @ butlast e)"
      using Cons.prems(1) by (cases e rule: rev_cases) auto
    ultimately have eq: "take (length e) ((a # p) @ butlast e) = e" by simp
    have "prefix (take (length e) ((a # p) @ butlast e)) ((a # p) @ butlast e)"
      by (rule take_is_prefix)
    then have "prefix e ((a # p) @ butlast e)" by (simp only: eq)
    then show False using Cons.prems(2) prefix_imp_sublist by blast
  qed
  have "\<not> sublist e (p @ butlast e)"
    using Cons.prems(2) by (simp add: sublist_Cons_right)
  then have ih: "replace_nonempty e new (p @ e @ q) = p @ new @ replace_nonempty e new q"
    using Cons.IH Cons.prems(1) by blast
  have "replace_nonempty e new ((a # p) @ e @ q) = a # replace_nonempty e new (p @ e @ q)"
    unfolding append_Cons replace_nonempty.simps using np by (simp only: if_False)
  then show ?case using ih by simp
qed


lemma filtered_gen_strs:
  "filtered_gen (PList (map PStr stops)) gens =
     Inr (map (\<lambda>g. foldl (\<lambda>s e. str_replace s e []) g stops) gens)"
proof -
  have a: "strip_until g (map PStr stops) = Inr (foldl (\<lambda>s e. str_replace s e []) g stops)" for g
    by (induction stops arbitrary: g) simp_all
  show ?thesis by (induction gens) (simp_all add: a)
qed

lemma generate_until_same:
  assumes ne: "requests \<noteq> []" and same: "all_dicts_same (map snd requests)"
  shows "generate_until G self requests =
    (let shared = snd (hd requests);
         u = dict_get shared ''until'' (PList []);
         g' = (generator self)
                  \<lparr>temperature := dict_get shared ''temperature'' (PNum 0),
                   top_p := dict_get shared ''top_p'' PNone,
                   top_k := dict_get shared ''top_k'' PNone,
                   until := u\<rparr>;
         self' = self\<lparr>generator := g', calls := calls self @ [(g', map fst requests)]\<rparr>
     in (self', case G g' (map fst requests) of
                  Inl err \<Rightarrow> Inl err
                | Inr out \<Rightarrow> filtered_gen u (fst out)))"
proof -
  let ?shared = "snd (hd requests)"
  let ?u = "dict_get ?shared ''until'' (PList [])"
  let ?g = "(generator self)
                  \<lparr>temperature := dict_get ?shared ''temperature'' (PNum 0),
                   top_p := dict_get ?shared ''top_p'' PNone,
                   top_k := dict_get ?shared ''top_k'' PNone,
                   until := ?u\<rparr>"
  show ?thesis
  proof (cases "G ?g (map fst requests)")
    case (Inl err)
    then show ?thesis using ne same
      by (simp add: generate_until_def generate_def Let_def hd_map)
  next
    case (Inr out)
    obtain gens lls greedy where "out = (gens, lls, greedy)" by (cases out) auto
    with Inr show ?thesis using ne same
      by (simp add: generate_until_def generate_def Let_def hd_map)
  qed
qed


lemma not_all_dicts_same:
  assumes ne: "requests \<noteq> []"
    and ex: "\<exists>d \<in> set (map snd requests). d \<noteq> snd (hd requests)"
  shows "\<not> all_dicts_same (map snd requests)"
proof -
  have "hd (map snd requests) = snd (hd requests)" using ne by (rule hd_map)
  with ex show ?thesis unfolding all_dicts_same_iff by metis
qed

lemma all_dicts_same_shared:
  assumes ne: "requests \<noteq> []"
    and ex: "\<forall>d \<in> set (map snd requests). d = snd (hd requests)"
  shows "all_dicts_same (map snd requests)"
proof -
  have "hd (map snd requests) = snd (hd requests)" using ne by (rule hd_map)
  with ex show ?thesis unfolding all_dicts_same_iff by metis
qed

lemma generate_until_different:
  "requests \<noteq> [] \<Longrightarrow> \<not> all_dicts_same (map snd requests) \<Longrightarrow>
   generate_until G self requests = (self, Inl AssertionError)"
  by (simp add: generate_until_def)

text \<open>
  C4. When the requests of one \<^verbatim>\<open>generate_until\<close> call carry generation-parameter dicts
  that are not all equal, the call fails with \<^verbatim>\<open>AssertionError\<close> and leaves the adapter
  as it was: no field of the generator is assigned and \<^verbatim>\<open>generate\<close> is not invoked. When
  all dicts are equal, the shared temperature, top_p, top_k and stop list (with the
  defaults \<^verbatim>\<open>0.0\<close>, \<^verbatim>\<open>None\<close>, \<^verbatim>\<open>None\<close>, \<^verbatim>\<open>[]\<close>) are assigned to the generator and
  \<^verbatim>\<open>generate\<close> is invoked exactly once, under that configuration, with all prompts.
\<close>

theorem generate_until_gen_args:
  "requests \<noteq> [] \<Longrightarrow>
   ((\<exists>d \<in> set (map snd requests). d \<noteq> snd (hd requests)) \<longrightarrow>
      generate_until G self requests = (self, Inl AssertionError)) \<and>
   ((\<forall>d \<in> set (map snd requests). d = snd (hd requests)) \<longrightarrow>
      (let shared = snd (hd requests);
           g' = (generator self)
                  \<lparr>temperature := dict_get shared ''temperature'' (PNum 0),
                   top_p := dict_get shared ''top_p'' PNone,
                   top_k := dict_get shared ''top_k'' PNone,
                   until := dict_get shared ''until'' (PList [])\<rparr>
       in fst (generate_until G self requests) =
            self\<lparr>generator := g', calls := calls self @ [(g', map fst requests)]\<rparr>))"
proof (intro conjI impI)
  assume ne: "requests \<noteq> []"
    and ex: "\<exists>d \<in> set (map snd requests). d \<noteq> snd (hd requests)"
  show "generate_until G self requests = (self, Inl AssertionError)"
    using ne not_all_dicts_same [OF ne ex] by (rule generate_until_different)
next
  assume ne: "requests \<noteq> []"
    and al: "\<forall>d \<in> set (map snd requests). d = snd (hd requests)"
  show "let shared = snd (hd requests);
           g' = (generator self)
                  \<lparr>temperature := dict_get shared ''temperature'' (PNum 0),
                   top_p := dict_get shared ''top_p'' PNone,
                   top_k := dict_get shared ''top_k'' PNone,
                   until := dict_get shared ''until'' (PList [])\<rparr>
       in fst (generate_until G self requests) =
            self\<lparr>generator := g', calls := calls self @ [(g', map fst requests)]\<rparr>"
    by (simp only: generate_until_same [OF ne all_dicts_same_shared [OF ne al]] Let_def fst_conv)
qed

theorem generate_until_gen_args_witness:
  "generate_until example_generate example_harness
      [(''p'', [''temperature'' \<mapsto> PNum 0]), (''q'', [''temperature'' \<mapsto> PNum 1])]
     = (example_harness, Inl AssertionError) \<and>
   fst (generate_until example_generate example_harness
      [(''p'', [''top_k'' \<mapsto> PNum 5]), (''q'', [''top_k'' \<mapsto> PNum 5])])
     = \<lparr>generator = \<lparr>temperature = PNum 0, top_p = PNone, top_k = PNum 5, until = PList [],
                      max_gen_len = 256\<rparr>,
        calls = [(\<lparr>temperature = PNum 0, top_p = PNone, top_k = PNum 5, until = PList [],
                      max_gen_len = 256\<rparr>, [''p'', ''q''])]\<rparr>"
proof -
  have d: "[''temperature'' \<mapsto> PNum 0] \<noteq> [''temperature'' \<mapsto> PNum 1]"
    by (simp add: fun_eq_iff)
  have a: "generate_until example_generate example_harness
      [(''p'', [''temperature'' \<mapsto> PNum 0]), (''q'', [''temperature'' \<mapsto> PNum 1])]
     = (example_harness, Inl AssertionError)"
    using generate_until_gen_args [of "[(''p'', [''temperature'' \<mapsto> PNum 0]),
      (''q'', [''temperature'' \<mapsto> PNum 1])]" example_generate example_harness] d
    by simp
  have b: "fst (generate_until example_generate example_harness
      [(''p'', [''top_k'' \<mapsto> PNum 5]), (''q'', [''top_k'' \<mapsto> PNum 5])])
     = \<lparr>generator = \<lparr>temperature = PNum 0, top_p = PNone, top_k = PNum 5, until = PList [],
                      max_gen_len = 256\<rparr>,
        calls = [(\<lparr>temperature = PNum 0, top_p = PNone, top_k = PNum 5, until = PList [],
                      max_gen_len = 256\<rparr>, [''p'', ''q''])]\<rparr>"
    using generate_until_gen_args [of "[(''p'', [''top_k'' \<mapsto> PNum 5]),
      (''q'', [''top_k'' \<mapsto> PNum 5])]" example_generate example_harness]
    by (simp add: Let_def dict_get_def example_harness_def example_generator_def)
  from a b show ?thesis by (rule conjI)
qed

lemma str_replace_empty_old: "str_replace s [] [] = s"
  by (induction s) (simp_all add: str_replace_def)

text \<open>
  C2, as the code has it. \<^verbatim>\<open>generate_until\<close> returns one string per generation, in the
  order of the generations; each is the raw generation from which the stop strings have
  been removed one after the other, in the order supplied, and the removal of a stop
  string deletes every non-overlapping occurrence of it, scanning from the left (Python's
  \<^verbatim>\<open>str.replace\<close>), not at most one: a string without the stop string is unchanged, and
  after the leftmost occurrence has been deleted the removal goes on in the rest.
\<close>

theorem generate_until_strips_every_occurrence:
  assumes ne: "requests \<noteq> []"
    and same: "\<forall>d \<in> set (map snd requests). d = snd (hd requests)"
    and stops: "dict_get (snd (hd requests)) ''until'' (PList []) = PList (map PStr stops)"
    and gen: "G ((generator self)
                  \<lparr>temperature := dict_get (snd (hd requests)) ''temperature'' (PNum 0),
                   top_p := dict_get (snd (hd requests)) ''top_p'' PNone,
                   top_k := dict_get (snd (hd requests)) ''top_k'' PNone,
                   until := PList (map PStr stops)\<rparr>) (map fst requests)
              = Inr (gens, lls, greedy)"
  shows "snd (generate_until G self requests) =
           Inr (map (\<lambda>g. foldl (\<lambda>s e. str_replace s e []) g stops) gens) \<and>
         (\<forall>s e. \<not> sublist e s \<longrightarrow> str_replace s e [] = s) \<and>
         (\<forall>p e q. e \<noteq> [] \<and> \<not> sublist e (p @ butlast e) \<longrightarrow>
            str_replace (p @ e @ q) e [] = p @ str_replace q e [])"
proof (intro conjI allI impI)
  have "snd (generate_until G self requests) = filtered_gen (PList (map PStr stops)) gens"
    using gen
    by (simp add: generate_until_same [OF ne all_dicts_same_shared [OF ne same]] Let_def stops)
  then show "snd (generate_until G self requests) =
           Inr (map (\<lambda>g. foldl (\<lambda>s e. str_replace s e []) g stops) gens)"
    by (simp only: filtered_gen_strs)
next
  fix s e :: string
  assume "\<not> sublist e s"
  then show "str_replace s e [] = s"
    by (simp add: str_replace_def replace_nonempty_absent)
next
  fix p e q :: string
  assume "e \<noteq> [] \<and> \<not> sublist e (p @ butlast e)"
  then show "str_replace (p @ e @ q) e [] = p @ str_replace q e []"
    using replace_nonempty_leftmost [of e p "[]" q] by (simp add: str_replace_def)
qed

theorem generate_until_strips_every_occurrence_witness:
  "snd (generate_until example_generate example_harness
          [(''p'', [''until'' \<mapsto> PList [PStr ''X'', PStr ''bc'']])]) = Inr [''a''] \<and>
   str_replace ''abc'' ''X'' [] = ''abc'' \<and>
   str_replace (''a'' @ ''X'' @ ''bXc'') ''X'' [] = ''a'' @ str_replace ''bXc'' ''X'' []"
proof -
  note t = generate_until_strips_every_occurrence
      [of "[(''p'', [''until'' \<mapsto> PList [PStr ''X'', PStr ''bc'']])]" "[''X'', ''bc'']"
          example_generate example_harness "[''aXbXc'']" "[[- 1, - 2, - 3]]"
          "[[True, False, True]]"]
  have "snd (generate_until example_generate example_harness
          [(''p'', [''until'' \<mapsto> PList [PStr ''X'', PStr ''bc'']])]) =
        Inr (map (\<lambda>g. foldl (\<lambda>s e. str_replace s e []) g [''X'', ''bc'']) [''aXbXc''])"
    using t by (simp add: dict_get_def example_generate_def)
  then have a: "snd (generate_until example_generate example_harness
          [(''p'', [''until'' \<mapsto> PList [PStr ''X'', PStr ''bc'']])]) = Inr [''a'']"
    by (simp add: str_replace_def)
  have n: "\<not> sublist ''X'' ''abc''" "\<not> sublist ''X'' (''a'' @ butlast ''X'')"
    by (simp_all add: sublist_Cons_right)
  have h: "(\<forall>s e. \<not> sublist e s \<longrightarrow> str_replace s e [] = s) \<and>
         (\<forall>p e q. e \<noteq> [] \<and> \<not> sublist e (p @ butlast e) \<longrightarrow>
            str_replace (p @ e @ q) e [] = p @ str_replace q e [])"
    using t by (simp add: dict_get_def example_generate_def)
  from h n(1) have b: "str_replace ''abc'' ''X'' [] = ''abc''" by blast
  from h n(2) have c: "str_replace (''a'' @ ''X'' @ ''bXc'') ''X'' [] = ''a'' @ str_replace ''bXc'' ''X'' []"
    by blast
  from a b c show ?thesis by blast
qed

text \<open>
  C2, as stated, fails: on the raw generation \<^verbatim>\<open>aXbXc\<close> with the single stop string
  \<^verbatim>\<open>X\<close> the code returns \<^verbatim>\<open>abc\<close>, which is not the raw generation with at most one
  occurrence of \<^verbatim>\<open>X\<close> deleted.
\<close>

theorem generate_until_removes_twice:
  "snd (generate_until example_generate example_harness
          [(''p'', [''until'' \<mapsto> PList [PStr ''X'']])]) = Inr [''abc''] \<and>
   ''abc'' \<notin> set (stripped_at_most_once [''X''] ''aXbXc'')"
proof -
  have "''abc'' \<notin> set (stripped_at_most_once [''X''] ''aXbXc'')"
    by (simp add: removed_at_most_once_def delete_at_def)
  then show ?thesis
    by (simp add: generate_until_def all_dicts_same_def generate_def example_generate_def
      dict_get_def str_replace_def Let_def)
qed

lemma loglikelihood_unfold:
  assumes ne: "requests \<noteq> []"
  shows "loglikelihood G encode self requests =
    (let inputs = map (\<lambda>args. fst args @ snd args) requests;
         g1 = (generator self)\<lparr>max_gen_len := 1\<rparr>;
         log = calls self @ [(g1, inputs)]
     in case G g1 inputs of
          Inl err \<Rightarrow> (self\<lparr>generator := g1, calls := log\<rparr>, Inl err)
        | Inr out \<Rightarrow>
            (self\<lparr>calls := log\<rparr>,
             Inr (map (\<lambda>(p, ll, gr).
                    (sum_list (drop (length (encode p)) ll),
                     list_all (\<lambda>b. b) (drop (length (encode p)) gr)))
                  (zip (map fst requests) (zip (fst (snd out)) (snd (snd out)))))))"
proof (cases "G ((generator self)\<lparr>max_gen_len := 1\<rparr>) (map (\<lambda>args. fst args @ snd args) requests)")
  case (Inl err)
  then show ?thesis using ne by (simp add: loglikelihood_def generate_def Let_def)
next
  case (Inr out)
  obtain gens lls greedy where "out = (gens, lls, greedy)" by (cases out) auto
  with Inr show ?thesis using ne by (simp add: loglikelihood_def generate_def Let_def)
qed

lemma loglikelihood_rolling_unfold:
  "loglikelihood_rolling G self requests =
    (let g1 = (generator self)\<lparr>max_gen_len := 1\<rparr>;
         log = calls self @ [(g1, requests)]
     in case G g1 requests of
          Inl err \<Rightarrow> (self\<lparr>generator := g1, calls := log\<rparr>, Inl err)
        | Inr out \<Rightarrow>
            (self\<lparr>calls := log\<rparr>,
             Inr (map (\<lambda>ll. PTuple [PNum (sum_list ll)]) (fst (snd out)))))"
proof (cases "G ((generator self)\<lparr>max_gen_len := 1\<rparr>) requests")
  case (Inl err)
  then show ?thesis by (simp add: loglikelihood_rolling_def generate_def Let_def)
next
  case (Inr out)
  obtain gens lls greedy where "out = (gens, lls, greedy)" by (cases out) auto
  with Inr show ?thesis by (simp add: loglikelihood_rolling_def generate_def Let_def)
qed

text \<open>
  C1, as the code has it. The restore of \<^verbatim>\<open>max_gen_len\<close> is a plain assignment after the
  loop over the results, not a guaranteed-execution scope. When \<^verbatim>\<open>generator.generate\<close>
  returns normally, the generator's configuration after \<^verbatim>\<open>loglikelihood\<close> and after
  \<^verbatim>\<open>loglikelihood_rolling\<close> equals its pre-call value. When \<^verbatim>\<open>generator.generate\<close>
  raises, the exception propagates and \<^verbatim>\<open>max_gen_len\<close> is left at 1.
\<close>

theorem max_gen_len_restored_when_generate_returns:
  "(\<forall>out. G ((generator self)\<lparr>max_gen_len := 1\<rparr>) (map (\<lambda>args. fst args @ snd args) requests)
            = Inr out \<longrightarrow>
      generator (fst (loglikelihood G encode self requests)) = generator self) \<and>
   (\<forall>err. requests \<noteq> [] \<and>
      G ((generator self)\<lparr>max_gen_len := 1\<rparr>) (map (\<lambda>args. fst args @ snd args) requests)
            = Inl err \<longrightarrow>
      snd (loglikelihood G encode self requests) = Inl err \<and>
      max_gen_len (generator (fst (loglikelihood G encode self requests))) = 1) \<and>
   (\<forall>out. G ((generator self)\<lparr>max_gen_len := 1\<rparr>) prompts = Inr out \<longrightarrow>
      generator (fst (loglikelihood_rolling G self prompts)) = generator self) \<and>
   (\<forall>err. G ((generator self)\<lparr>max_gen_len := 1\<rparr>) prompts = Inl err \<longrightarrow>
      snd (loglikelihood_rolling G self prompts) = Inl err \<and>
      max_gen_len (generator (fst (loglikelihood_rolling G self prompts))) = 1)"
proof (intro conjI allI impI)
  fix out
  assume "G ((generator self)\<lparr>max_gen_len := 1\<rparr>) (map (\<lambda>args. fst args @ snd args) requests)
            = Inr out"
  then show "generator (fst (loglikelihood G encode self requests)) = generator self"
    by (cases "requests = []") (simp_all add: loglikelihood_unfold Let_def, simp add: loglikelihood_def)
next
  fix err
  assume a: "requests \<noteq> [] \<and>
      G ((generator self)\<lparr>max_gen_len := 1\<rparr>) (map (\<lambda>args. fst args @ snd args) requests)
            = Inl err"
  then show "snd (loglikelihood G encode self requests) = Inl err"
    by (simp add: loglikelihood_unfold Let_def)
  from a show "max_gen_len (generator (fst (loglikelihood G encode self requests))) = 1"
    by (simp add: loglikelihood_unfold Let_def)
next
  fix out
  assume "G ((generator self)\<lparr>max_gen_len := 1\<rparr>) prompts = Inr out"
  then show "generator (fst (loglikelihood_rolling G self prompts)) = generator self"
    by (simp add: loglikelihood_rolling_unfold Let_def)
next
  fix err
  assume a: "G ((generator self)\<lparr>max_gen_len := 1\<rparr>) prompts = Inl err"
  then show "snd (loglikelihood_rolling G self prompts) = Inl err"
    by (simp add: loglikelihood_rolling_unfold Let_def)
  from a show "max_gen_len (generator (fst (loglikelihood_rolling G self prompts))) = 1"
    by (simp add: loglikelihood_rolling_unfold Let_def)
qed

text \<open>
  C1, as stated, fails: with \<^verbatim>\<open>max_gen_len = 256\<close> before the call and a generator whose
  \<^verbatim>\<open>generate\<close> raises, the field differs from its pre-call value after either call.
\<close>

theorem max_gen_len_left_at_one:
  "max_gen_len (generator (fst (loglikelihood failing_generate (\<lambda>s. map of_char s)
      example_harness [(''ctx'', ''cont'')]))) \<noteq> max_gen_len (generator example_harness) \<and>
   max_gen_len (generator (fst (loglikelihood_rolling failing_generate
      example_harness [''doc'']))) \<noteq> max_gen_len (generator example_harness)"
  by (simp add: loglikelihood_def loglikelihood_rolling_def generate_def failing_generate_def
      example_harness_def example_generator_def Let_def)

theorem max_gen_len_restored_when_generate_returns_witness:
  "generator (fst (loglikelihood example_generate (\<lambda>s. map of_char s) example_harness
      [(''ctx'', ''cont'')])) = generator example_harness \<and>
   snd (loglikelihood failing_generate (\<lambda>s. map of_char s) example_harness
      [(''ctx'', ''cont'')]) = Inl (ExternalError ''out of memory'') \<and>
   max_gen_len (generator (fst (loglikelihood failing_generate (\<lambda>s. map of_char s)
      example_harness [(''ctx'', ''cont'')]))) = 1 \<and>
   generator (fst (loglikelihood_rolling example_generate example_harness [''doc'']))
     = generator example_harness \<and>
   snd (loglikelihood_rolling failing_generate example_harness [''doc''])
     = Inl (ExternalError ''out of memory'') \<and>
   max_gen_len (generator (fst (loglikelihood_rolling failing_generate example_harness
      [''doc'']))) = 1"
  using max_gen_len_restored_when_generate_returns
      [of example_generate example_harness "[(''ctx'', ''cont'')]" "\<lambda>s. map of_char s" "[''doc'']"]
    max_gen_len_restored_when_generate_returns
      [of failing_generate example_harness "[(''ctx'', ''cont'')]" "\<lambda>s. map of_char s" "[''doc'']"]
  by (simp add: example_generate_def failing_generate_def)

lemma sum_list_drop_nth:
  fixes xs :: "real list"
  shows "sum_list (drop n xs) = (\<Sum>j = n..<length xs. xs ! j)"
proof (cases "n \<le> length xs")
  case True
  have "sum_list (drop n xs) = (\<Sum>i = 0..<length xs - n. xs ! (i + n))"
    using True by (simp add: sum_list_sum_nth add.commute)
  also have "\<dots> = (\<Sum>j = 0 + n..<(length xs - n) + n. xs ! j)"
    by (rule sum.shift_bounds_nat_ivl [symmetric])
  finally show ?thesis using True by simp
next
  case False
  then show ?thesis by simp
qed

lemma list_all_drop_nth:
  "list_all (\<lambda>b. b) (drop n bs) \<longleftrightarrow> (\<forall>j. n \<le> j \<and> j < length bs \<longrightarrow> bs ! j)"
proof
  assume a: "list_all (\<lambda>b. b) (drop n bs)"
  show "\<forall>j. n \<le> j \<and> j < length bs \<longrightarrow> bs ! j"
  proof (intro allI impI)
    fix j assume j: "n \<le> j \<and> j < length bs"
    then have "j - n < length (drop n bs)" by auto
    with a have "drop n bs ! (j - n)" by (simp add: list_all_length)
    with j show "bs ! j" by simp
  qed
next
  assume a: "\<forall>j. n \<le> j \<and> j < length bs \<longrightarrow> bs ! j"
  show "list_all (\<lambda>b. b) (drop n bs)"
    unfolding list_all_length
  proof (intro allI impI)
    fix i assume "i < length (drop n bs)"
    then have "n \<le> n + i \<and> n + i < length bs" by simp
    with a have "bs ! (n + i)" by blast
    then show "drop n bs ! i" using \<open>i < length (drop n bs)\<close> by simp
  qed
qed

text \<open>
  C5. For a non-empty list of requests (context, continuation) on which the generator
  returns one log-likelihood vector and one greedy vector per request,
  \<^verbatim>\<open>loglikelihood\<close> invokes \<^verbatim>\<open>generate\<close> once, on the concatenations context +
  continuation, and returns one pair per request, in request order: the sum of the
  per-position log-likelihoods at the positions from the tokenized length of the context
  onward, and the flag that is true iff every greedy indicator at those positions is true.
\<close>

theorem loglikelihood_continuation_scores:
  assumes ne: "requests \<noteq> []"
    and gen: "G ((generator self)\<lparr>max_gen_len := 1\<rparr>)
                (map (\<lambda>args. fst args @ snd args) requests) = Inr (gens, lls, greedy)"
    and len_lls: "length lls = length requests"
    and len_greedy: "length greedy = length requests"
  shows "\<exists>results.
     snd (loglikelihood G encode self requests) = Inr results \<and>
     length results = length requests \<and>
     (\<forall>i < length requests.
        fst (results ! i) =
          (\<Sum>j = length (encode (fst (requests ! i)))..<length (lls ! i). lls ! i ! j) \<and>
        (snd (results ! i) \<longleftrightarrow>
          (\<forall>j. length (encode (fst (requests ! i))) \<le> j \<and> j < length (greedy ! i)
               \<longrightarrow> greedy ! i ! j))) \<and>
     calls (fst (loglikelihood G encode self requests)) =
       calls self @ [((generator self)\<lparr>max_gen_len := 1\<rparr>,
                      map (\<lambda>args. fst args @ snd args) requests)]"
proof -
  let ?results = "map (\<lambda>(p, ll, gr).
                    (sum_list (drop (length (encode p)) ll),
                     list_all (\<lambda>b. b) (drop (length (encode p)) gr)))
                  (zip (map fst requests) (zip lls greedy))"
  have r: "snd (loglikelihood G encode self requests) = Inr ?results"
    using gen by (simp add: loglikelihood_unfold [OF ne] Let_def)
  have c: "calls (fst (loglikelihood G encode self requests)) =
       calls self @ [((generator self)\<lparr>max_gen_len := 1\<rparr>,
                      map (\<lambda>args. fst args @ snd args) requests)]"
    using gen by (simp add: loglikelihood_unfold [OF ne] Let_def)
  have l: "length ?results = length requests"
    using len_lls len_greedy by simp
  have e: "fst (?results ! i) =
          (\<Sum>j = length (encode (fst (requests ! i)))..<length (lls ! i). lls ! i ! j) \<and>
        (snd (?results ! i) \<longleftrightarrow>
          (\<forall>j. length (encode (fst (requests ! i))) \<le> j \<and> j < length (greedy ! i)
               \<longrightarrow> greedy ! i ! j))" if "i < length requests" for i
    using that len_lls len_greedy
    by (simp add: sum_list_drop_nth list_all_drop_nth)
  from r l e c show ?thesis by blast
qed

theorem loglikelihood_continuation_scores_witness:
  "snd (loglikelihood example_generate (\<lambda>s. map of_char s) example_harness
      [(''c'', ''ont'')]) = Inr [(- 5, False)]"
proof -
  let ?requests = "[(''c'', ''ont'')]"
  let ?lls = "[[- 1, - 2, - 3 :: real]]"
  let ?greedy = "[[True, False, True]]"
  let ?encode = "\<lambda>s :: string. map of_char s :: int list"
  have "\<exists>results.
     snd (loglikelihood example_generate ?encode example_harness ?requests) = Inr results \<and>
     length results = length ?requests \<and>
     (\<forall>i < length ?requests.
        fst (results ! i) =
          (\<Sum>j = length (?encode (fst (?requests ! i)))..<length (?lls ! i). ?lls ! i ! j) \<and>
        (snd (results ! i) \<longleftrightarrow>
          (\<forall>j. length (?encode (fst (?requests ! i))) \<le> j \<and> j < length (?greedy ! i)
               \<longrightarrow> ?greedy ! i ! j))) \<and>
     calls (fst (loglikelihood example_generate ?encode example_harness ?requests)) =
       calls example_harness @ [((generator example_harness)\<lparr>max_gen_len := 1\<rparr>,
                      map (\<lambda>args. fst args @ snd args) ?requests)]"
    by (rule loglikelihood_continuation_scores [where gens = "[''aXbXc'']"])
       (simp_all add: example_generate_def)
  then obtain results where
    r: "snd (loglikelihood example_generate ?encode example_harness ?requests) = Inr results"
    and l: "length results = length ?requests"
    and e: "\<forall>i < length ?requests.
        fst (results ! i) =
          (\<Sum>j = length (?encode (fst (?requests ! i)))..<length (?lls ! i). ?lls ! i ! j) \<and>
        (snd (results ! i) \<longleftrightarrow>
          (\<forall>j. length (?encode (fst (?requests ! i))) \<le> j \<and> j < length (?greedy ! i)
               \<longrightarrow> ?greedy ! i ! j))"
    by blast
  from e have f': "fst (results ! 0) = - 5"
    and g: "snd (results ! 0) \<longleftrightarrow>
      (\<forall>j. Suc 0 \<le> j \<and> j < Suc (Suc (Suc 0)) \<longrightarrow> [False, True] ! (j - Suc 0))"
    by simp_all
  have "\<not> (\<forall>j. Suc 0 \<le> j \<and> j < Suc (Suc (Suc 0)) \<longrightarrow> [False, True] ! (j - Suc 0))"
  proof
    assume "\<forall>j. Suc 0 \<le> j \<and> j < Suc (Suc (Suc 0)) \<longrightarrow> [False, True] ! (j - Suc 0)"
    then have "Suc 0 \<le> Suc 0 \<and> Suc 0 < Suc (Suc (Suc 0)) \<longrightarrow> [False, True] ! (Suc 0 - Suc 0)"
      by (rule spec)
    then show False by simp
  qed
  with g have s: "\<not> snd (results ! 0)" by simp
  from l obtain x where x: "results = [x]" by (cases results) auto
  with f' s have "x = (- 5, False)" by (cases x) simp
  with x r show ?thesis by simp
qed

text \<open>
  C10. When the generator returns one log-likelihood vector per request,
  \<^verbatim>\<open>loglikelihood_rolling\<close> returns one result per request, in request order; each is
  the one-element tuple holding the sum of the whole vector, and never a bare number.
\<close>

theorem loglikelihood_rolling_returns_tuples:
  assumes gen: "G ((generator self)\<lparr>max_gen_len := 1\<rparr>) requests = Inr (gens, lls, greedy)"
    and len_lls: "length lls = length requests"
  shows "\<exists>results.
     snd (loglikelihood_rolling G self requests) = Inr results \<and>
     length results = length requests \<and>
     (\<forall>i < length requests.
        results ! i = PTuple [PNum (sum_list (lls ! i))] \<and> (\<forall>x. results ! i \<noteq> PNum x))"
proof -
  have "snd (loglikelihood_rolling G self requests) =
          Inr (map (\<lambda>ll. PTuple [PNum (sum_list ll)]) lls)"
    using gen by (simp add: loglikelihood_rolling_unfold Let_def)
  then show ?thesis using len_lls by simp
qed

theorem loglikelihood_rolling_returns_tuples_witness:
  "snd (loglikelihood_rolling example_generate example_harness [''doc'', ''text''])
     = Inr [PTuple [PNum (- 6)], PTuple [PNum (- 6)]]"
proof -
  let ?requests = "[''doc'', ''text'']"
  let ?lls = "[[- 1, - 2, - 3 :: real], [- 1, - 2, - 3]]"
  have "\<exists>results.
     snd (loglikelihood_rolling example_generate example_harness ?requests) = Inr results \<and>
     length results = length ?requests \<and>
     (\<forall>i < length ?requests.
        results ! i = PTuple [PNum (sum_list (?lls ! i))] \<and> (\<forall>x. results ! i \<noteq> PNum x))"
    by (rule loglikelihood_rolling_returns_tuples
          [where gens = "[''aXbXc'', ''aXbXc'']"
             and greedy = "[[True, False, True], [True, False, True]]"])
       (simp_all add: example_generate_def)
  then obtain results where
    r: "snd (loglikelihood_rolling example_generate example_harness ?requests) = Inr results"
    and l: "length results = length ?requests"
    and e: "\<forall>i < length ?requests.
        results ! i = PTuple [PNum (sum_list (?lls ! i))] \<and> (\<forall>x. results ! i \<noteq> PNum x)"
    by blast
  from e have "results ! 0 = PTuple [PNum (- 6)]" "results ! 1 = PTuple [PNum (- 6)]"
    by simp_all
  moreover from l obtain x y where "results = [x, y]"
    by (cases results; cases "tl results") auto
  ultimately have "results = [PTuple [PNum (- 6)], PTuple [PNum (- 6)]]" by simp
  with r show ?thesis by simp
qed

section \<open>Properties of the perplexity evaluator\<close>





text \<open>
  C7. Under a tokenizer family other than \<^verbatim>\<open>bytes\<close> and \<^verbatim>\<open>blt\<close>, the loop of
  \<^verbatim>\<open>eval_ppl_on_path\<close> raises \<^verbatim>\<open>NotImplementedError\<close> at its first batch, whatever has been
  accumulated; so \<^verbatim>\<open>eval_ppl_on_path\<close> on a path with one chunk raises
  \<^verbatim>\<open>NotImplementedError\<close> when there is a batch, and otherwise returns with no loss and
  no byte accumulated.
\<close>

theorem unsupported_tokenizer_not_implemented:
  "name \<notin> {''bytes'', ''blt''} \<Longrightarrow>
   loss_loop E name (batch # rest) acc = Inl NotImplementedError \<and>
   (length (find_and_sanitize_chunks E path) = 1 \<longrightarrow>
      eval_ppl_on_path E name path max_docs =
        (if packing_iterator E (find_and_sanitize_chunks E path ! 0) max_docs = []
         then Inr \<lparr>n_bytes = 0, loss_sum = 0, ppl = 0\<rparr>
         else Inl NotImplementedError))"
proof (intro conjI impI)
  assume n: "name \<notin> {''bytes'', ''blt''}"
  then show l: "loss_loop E name (batch # rest) acc = Inl NotImplementedError" for batch rest acc
    by simp
  assume c: "length (find_and_sanitize_chunks E path) = 1"
  show "eval_ppl_on_path E name path max_docs =
        (if packing_iterator E (find_and_sanitize_chunks E path ! 0) max_docs = []
         then Inr \<lparr>n_bytes = 0, loss_sum = 0, ppl = 0\<rparr>
         else Inl NotImplementedError)"
  proof (cases "packing_iterator E (find_and_sanitize_chunks E path ! 0) max_docs")
    case Nil
    then show ?thesis using c by (simp add: eval_ppl_on_path_def)
  next
    case (Cons b bs)
    then show ?thesis using c l [of b bs "(0, 0)"] by (simp add: eval_ppl_on_path_def)
  qed
qed

theorem unsupported_tokenizer_not_implemented_witness:
  "loss_loop example_env ''sp'' [example_batch] (0, 0) = Inl NotImplementedError \<and>
   eval_ppl_on_path example_env ''sp'' ''data'' None = Inl NotImplementedError \<and>
   eval_ppl_on_path example_env ''sp'' ''empty'' None
     = Inr \<lparr>n_bytes = 0, loss_sum = 0, ppl = 0\<rparr>"
proof -
  have n: "''sp'' \<notin> {''bytes'', ''blt''}" by simp
  have c: "find_and_sanitize_chunks example_env ''data'' = [''data/shard.chunk.00.val.jsonl'']"
    "find_and_sanitize_chunks example_env ''empty'' = [''empty/shard.chunk.00.val.jsonl'']"
    by (simp_all add: example_env_def)
  have p: "packing_iterator example_env ''data/shard.chunk.00.val.jsonl'' None = [example_batch]"
    "packing_iterator example_env ''empty/shard.chunk.00.val.jsonl'' None = []"
    by (simp_all add: example_env_def)
  from unsupported_tokenizer_not_implemented [OF n, of example_env example_batch "[]" "(0, 0)"
      "''data''" None] c p
  have a: "loss_loop example_env ''sp'' [example_batch] (0, 0) = Inl NotImplementedError"
    and b: "eval_ppl_on_path example_env ''sp'' ''data'' None = Inl NotImplementedError"
    by simp_all
  from unsupported_tokenizer_not_implemented [OF n, of example_env example_batch "[]" "(0, 0)"
      "''empty''" None] c p
  have "eval_ppl_on_path example_env ''sp'' ''empty'' None
     = Inr \<lparr>n_bytes = 0, loss_sum = 0, ppl = 0\<rparr>"
    by simp
  with a b show ?thesis by simp
qed

lemma path_to_iter_wrong_count:
  "\<exists>p \<in> set ps. length (find_and_sanitize_chunks E p) \<noteq> 1 \<Longrightarrow>
   path_to_iter E ps d = Inl AssertionError"
proof (induction ps arbitrary: d)
  case Nil
  then show ?case by simp
next
  case (Cons p ps)
  show ?case
  proof (cases "length (find_and_sanitize_chunks E p) = 1")
    case True
    with Cons.prems have "\<exists>q \<in> set ps. length (find_and_sanitize_chunks E q) \<noteq> 1" by auto
    then show ?thesis using True Cons.IH by (simp add: Let_def)
  next
    case False
    then show ?thesis by (simp add: Let_def)
  qed
qed

text \<open>
  C6, as the code has it. When the chunk resolution of a validation source path yields
  zero or several chunks, the run fails with \<^verbatim>\<open>AssertionError\<close>: \<^verbatim>\<open>eval_ppl_on_path\<close>
  before any batch is read, \<^verbatim>\<open>eval_on_val\<close> before the generator is touched.
\<close>

theorem wrong_chunk_count_assertion:
  "(length (find_and_sanitize_chunks E path) \<noteq> 1 \<longrightarrow>
      eval_ppl_on_path E name path max_docs = Inl AssertionError) \<and>
   ((\<exists>p \<in> set (srcs val_args train_cfg). length (find_and_sanitize_chunks E p) \<noteq> 1) \<longrightarrow>
      eval_on_val E G g val_args train_cfg = (g, Inl AssertionError))"
proof (intro conjI impI)
  assume "length (find_and_sanitize_chunks E path) \<noteq> 1"
  then show "eval_ppl_on_path E name path max_docs = Inl AssertionError"
    by (simp add: eval_ppl_on_path_def)
next
  assume "\<exists>p \<in> set (srcs val_args train_cfg). length (find_and_sanitize_chunks E p) \<noteq> 1"
  then have "path_to_iter E (srcs val_args train_cfg) [] = Inl AssertionError"
    by (rule path_to_iter_wrong_count)
  then show "eval_on_val E G g val_args train_cfg = (g, Inl AssertionError)"
    by (simp add: eval_on_val_def)
qed

text \<open>
  C6, as stated, fails: on a path without a chunk the exception is not a
  \<^verbatim>\<open>ConfigurationError\<close>, in either function.
\<close>

theorem wrong_chunk_count_not_configuration_error:
  "eval_ppl_on_path example_env ''bytes'' ''missing'' None \<noteq> Inl ConfigurationError \<and>
   snd (eval_on_val example_env example_generate example_generator
          \<lparr>max_n_docs = None, root_dir = [], sources = [''missing'']\<rparr> example_train_cfg)
     \<noteq> Inl ConfigurationError"
  by (simp add: eval_ppl_on_path_def eval_on_val_def srcs_def path_join_def example_env_def
      example_train_cfg_def Let_def)

theorem wrong_chunk_count_assertion_witness:
  "eval_ppl_on_path example_env ''bytes'' ''missing'' None = Inl AssertionError \<and>
   eval_on_val example_env example_generate example_generator
     \<lparr>max_n_docs = None, root_dir = [], sources = [''data'', ''missing'']\<rparr> example_train_cfg
     = (example_generator, Inl AssertionError)"
proof -
  have c: "length (find_and_sanitize_chunks example_env ''missing'') \<noteq> 1"
    by (simp add: example_env_def)
  have s: "srcs \<lparr>max_n_docs = None, root_dir = [], sources = [''data'', ''missing'']\<rparr>
             example_train_cfg = [''data'', ''missing'']"
    by (simp add: srcs_def path_join_def example_train_cfg_def)
  show ?thesis
    using c s wrong_chunk_count_assertion [of example_env "''missing''" "''bytes''" None
      "\<lparr>max_n_docs = None, root_dir = [], sources = [''data'', ''missing'']\<rparr>"
      example_train_cfg example_generate example_generator]
    by simp
qed

section \<open>Properties of the validation\<close>

lemma update_fresh: "k \<notin> fst ` set d \<Longrightarrow> AList.update k v d = d @ [(k, v)]"
  by (induction d) auto

lemma path_to_iter_distinct:
  "distinct ps \<Longrightarrow> set ps \<inter> fst ` set d = {} \<Longrightarrow>
   \<forall>p \<in> set ps. length (find_and_sanitize_chunks E p) = 1 \<Longrightarrow>
   path_to_iter E ps d = Inr (d @ map (\<lambda>p. (p, find_and_sanitize_chunks E p ! 0)) ps)"
proof (induction ps arbitrary: d)
  case Nil
  then show ?case by simp
next
  case (Cons p ps)
  let ?d = "d @ [(p, find_and_sanitize_chunks E p ! 0)]"
  from Cons.prems(2) have "p \<notin> fst ` set d" by auto
  then have u: "AList.update p (find_and_sanitize_chunks E p ! 0) d = ?d"
    by (rule update_fresh)
  have "distinct ps" using Cons.prems(1) by simp
  moreover have "set ps \<inter> fst ` set ?d = {}" using Cons.prems(1,2) by auto
  moreover have "\<forall>q \<in> set ps. length (find_and_sanitize_chunks E q) = 1"
    using Cons.prems(3) by simp
  ultimately have "path_to_iter E ps ?d =
      Inr (?d @ map (\<lambda>p. (p, find_and_sanitize_chunks E p ! 0)) ps)"
    by (rule Cons.IH)
  then show ?case using Cons.prems(3) u by (simp add: Let_def)
qed

lemma path_to_iter_returns:
  "path_to_iter E ps d = Inr d' \<Longrightarrow> \<forall>p \<in> set ps. length (find_and_sanitize_chunks E p) = 1"
  using path_to_iter_wrong_count [of ps E d] by auto

lemma val_loop_append:
  "val_loop E G g (a @ b) acc =
     (case val_loop E G g a acc of Inl err \<Rightarrow> Inl err | Inr acc' \<Rightarrow> val_loop E G g b acc')"
proof (induction a arbitrary: acc)
  case Nil
  then show ?case by simp
next
  case (Cons x a)
  obtain src chunk where x: "x = (src, chunk)" by (cases x) auto
  show ?case
  proof (cases "validate_source E G g chunk")
    case (Inl err)
    then show ?thesis unfolding x by simp
  next
    case (Inr ms)
    let ?acc = "acc((if basename src \<in> dom acc then basename src @ ''_1'' else basename src)
       \<mapsto> ms)"
    have "val_loop E G g ((x # a) @ b) acc = val_loop E G g (a @ b) ?acc"
      unfolding x using Inr by (simp add: Let_def)
    also have "\<dots> = (case val_loop E G g a ?acc of
        Inl err \<Rightarrow> Inl err | Inr acc' \<Rightarrow> val_loop E G g b acc')"
      by (rule Cons.IH)
    also have "val_loop E G g a ?acc = val_loop E G g (x # a) acc"
      unfolding x using Inr by (simp add: Let_def)
    finally show ?thesis .
  qed
qed

lemma val_loop_frame:
  "val_loop E G g d acc = Inr res \<Longrightarrow>
   \<forall>x \<in> set d. basename (fst x) \<noteq> k \<and> basename (fst x) @ ''_1'' \<noteq> k \<Longrightarrow>
   res k = acc k"
proof (induction d arbitrary: acc)
  case Nil
  then show ?case by simp
next
  case (Cons x d)
  obtain src chunk where x: "x = (src, chunk)" by (cases x) auto
  from Cons.prems(1) obtain ms where
    r: "val_loop E G g d
          (acc((if basename src \<in> dom acc then basename src @ ''_1'' else basename src) \<mapsto> ms))
        = Inr res"
    unfolding x by (auto simp: Let_def split: sum.splits)
  have "\<forall>y \<in> set d. basename (fst y) \<noteq> k \<and> basename (fst y) @ ''_1'' \<noteq> k"
    using Cons.prems(2) by simp
  from Cons.IH [OF r this] have
    "res k = (acc((if basename src \<in> dom acc then basename src @ ''_1'' else basename src) \<mapsto> ms)) k" .
  moreover have "basename src \<noteq> k" "basename src @ ''_1'' \<noteq> k"
    using Cons.prems(2) x by simp_all
  ultimately show ?case by simp
qed

lemma val_loop_step:
  "val_loop E G g [(src, chunk)] acc = Inr res \<Longrightarrow>
   \<exists>ms. validate_source E G g chunk = Inr ms \<and>
        res = acc((if basename src \<in> dom acc then basename src @ ''_1'' else basename src) \<mapsto> ms)"
  by (auto simp: Let_def split: sum.splits)

text \<open>
  C8. In a run of \<^verbatim>\<open>eval_on_val\<close> that returns, over sources at distinct paths of which
  two, \<open>p1\<close> before \<open>p2\<close>, share the basename \<open>name\<close> (no other source being named
  \<open>name\<close> or \<open>name_1\<close>, or renamed to \<open>name\<close>), the metrics of \<open>p1\<close> are stored under
  \<open>name\<close> and the metrics of \<open>p2\<close> under \<open>name_1\<close>: neither is lost.
\<close>

theorem duplicate_basename_renamed:
  assumes run: "eval_on_val E G g val_args train_cfg = (g', Inr all_val_metrics)"
    and split: "srcs val_args train_cfg = xs @ p1 # ys @ p2 # zs"
    and dist: "distinct (srcs val_args train_cfg)"
    and b1: "basename p1 = name"
    and b2: "basename p2 = name"
    and others: "\<forall>q \<in> set (xs @ ys @ zs).
       basename q \<noteq> name \<and> basename q \<noteq> name @ ''_1'' \<and> basename q @ ''_1'' \<noteq> name"
  shows "\<exists>m1 m2.
     validate_source E G (g\<lparr>max_gen_len := 1\<rparr>) (find_and_sanitize_chunks E p1 ! 0) = Inr m1 \<and>
     validate_source E G (g\<lparr>max_gen_len := 1\<rparr>) (find_and_sanitize_chunks E p2 ! 0) = Inr m2 \<and>
     all_val_metrics name = Some m1 \<and>
     all_val_metrics (name @ ''_1'') = Some m2"
proof -
  let ?g = "g\<lparr>max_gen_len := 1\<rparr>"
  let ?f = "\<lambda>p. (p, find_and_sanitize_chunks E p ! 0)"
  let ?n1 = "name @ ''_1''"
  have nn: "name \<noteq> ?n1" by simp
  from run obtain d where d: "path_to_iter E (srcs val_args train_cfg) [] = Inr d"
    and v: "val_loop E G ?g d Map.empty = Inr all_val_metrics"
    by (auto simp: eval_on_val_def Let_def split: sum.splits)
  from path_to_iter_returns [OF d] dist
  have "path_to_iter E (srcs val_args train_cfg) [] =
          Inr ([] @ map ?f (srcs val_args train_cfg))"
    by (intro path_to_iter_distinct) simp_all
  with d split have dd: "d = map ?f xs @ [?f p1] @ map ?f ys @ [?f p2] @ map ?f zs"
    by simp
  have fx: "\<forall>x \<in> set (map ?f xs). basename (fst x) \<noteq> k \<and> basename (fst x) @ ''_1'' \<noteq> k"
    and fy: "\<forall>x \<in> set (map ?f ys). basename (fst x) \<noteq> k \<and> basename (fst x) @ ''_1'' \<noteq> k"
    and fz: "\<forall>x \<in> set (map ?f zs). basename (fst x) \<noteq> k \<and> basename (fst x) @ ''_1'' \<noteq> k"
    if "k = name \<or> k = ?n1" for k
    using that others by auto
  from v obtain a1 where a1: "val_loop E G ?g (map ?f xs) Map.empty = Inr a1"
    and v1: "val_loop E G ?g ([?f p1] @ map ?f ys @ [?f p2] @ map ?f zs) a1 = Inr all_val_metrics"
    unfolding dd val_loop_append [of E G ?g "map ?f xs"] by (auto split: sum.splits)
  from v1 obtain a2 where a2: "val_loop E G ?g [?f p1] a1 = Inr a2"
    and v2: "val_loop E G ?g (map ?f ys @ [?f p2] @ map ?f zs) a2 = Inr all_val_metrics"
    unfolding val_loop_append [of E G ?g "[?f p1]"] by (auto split: sum.splits)
  from v2 obtain a3 where a3: "val_loop E G ?g (map ?f ys) a2 = Inr a3"
    and v3: "val_loop E G ?g ([?f p2] @ map ?f zs) a3 = Inr all_val_metrics"
    unfolding val_loop_append [of E G ?g "map ?f ys"] by (auto split: sum.splits)
  from v3 obtain a4 where a4: "val_loop E G ?g [?f p2] a3 = Inr a4"
    and v4: "val_loop E G ?g (map ?f zs) a4 = Inr all_val_metrics"
    unfolding val_loop_append [of E G ?g "[?f p2]"] by (auto split: sum.splits)
  have x1: "a1 name = None" "a1 ?n1 = None"
    using val_loop_frame [OF a1 fx, of name] val_loop_frame [OF a1 fx, of ?n1]
    by simp_all
  from val_loop_step [OF a2] obtain m1 where
    m1: "validate_source E G ?g (find_and_sanitize_chunks E p1 ! 0) = Inr m1"
    and e2: "a2 = a1((if basename p1 \<in> dom a1 then basename p1 @ ''_1'' else basename p1) \<mapsto> m1)"
    by blast
  from e2 x1 b1 have e2': "a2 = a1(name \<mapsto> m1)" by (simp add: domIff)
  have x2: "a2 name = Some m1" "a2 ?n1 = None"
    using e2' x1 nn by simp_all
  have x3: "a3 name = Some m1" "a3 ?n1 = None"
    using val_loop_frame [OF a3 fy, of name] val_loop_frame [OF a3 fy, of ?n1] x2
    by simp_all
  from val_loop_step [OF a4] obtain m2 where
    m2: "validate_source E G ?g (find_and_sanitize_chunks E p2 ! 0) = Inr m2"
    and e4: "a4 = a3((if basename p2 \<in> dom a3 then basename p2 @ ''_1'' else basename p2) \<mapsto> m2)"
    by blast
  from e4 x3 b2 have e4': "a4 = a3(?n1 \<mapsto> m2)" by (simp add: domIff)
  have x4: "a4 name = Some m1" "a4 ?n1 = Some m2"
    using e4' x3 nn by simp_all
  have "all_val_metrics name = Some m1" "all_val_metrics ?n1 = Some m2"
    using val_loop_frame [OF v4 fz, of name] val_loop_frame [OF v4 fz, of ?n1] x4
    by simp_all
  with m1 m2 show ?thesis by blast
qed

theorem duplicate_basename_renamed_witness:
  "\<exists>all_val_metrics m1 m2.
     snd (eval_on_val example_env example_generate example_generator
            \<lparr>max_n_docs = None, root_dir = ''data'',
             sources = [''en/val.jsonl'', ''wiki/test.jsonl'', ''fra/val.jsonl'']\<rparr>
            example_train_cfg)
       = Inr all_val_metrics \<and>
     all_val_metrics ''val.jsonl'' = Some m1 \<and>
     all_val_metrics ''val.jsonl_1'' = Some m2 \<and>
     m1 ''nll_per_char'' = Some (- 1 / 7) \<and>
     m2 ''nll_per_char'' = Some (- 6 / 43)"
proof -
  let ?args = "\<lparr>max_n_docs = None, root_dir = ''data'',
             sources = [''en/val.jsonl'', ''wiki/test.jsonl'', ''fra/val.jsonl'']\<rparr>"
  let ?g = "example_generator\<lparr>max_gen_len := 1\<rparr>"
  have s: "srcs ?args example_train_cfg =
      [] @ ''data/en/val.jsonl'' # [''data/wiki/test.jsonl''] @ ''data/fra/val.jsonl'' # []"
    by (simp add: srcs_def path_join_def example_train_cfg_def suffix_to_prefix)
  have c: "find_and_sanitize_chunks example_env ''data/en/val.jsonl'' ! 0
             = ''data/en/val.jsonl/shard.chunk.00.val.jsonl''"
    "find_and_sanitize_chunks example_env ''data/fra/val.jsonl'' ! 0
             = ''data/fra/val.jsonl/shard.chunk.00.val.jsonl''"
    by (simp_all add: example_env_def)
  have v1: "\<exists>m. validate_source example_env example_generate ?g
              ''data/en/val.jsonl/shard.chunk.00.val.jsonl'' = Inr m \<and>
              m ''nll_per_char'' = Some (- 1 / 7)"
    by (simp add: validate_source_def example_env_def example_generate_def source_metrics_def
        mean_def Let_def map_add_def)
  have v2: "\<exists>m. validate_source example_env example_generate ?g
              ''data/fra/val.jsonl/shard.chunk.00.val.jsonl'' = Inr m \<and>
              m ''nll_per_char'' = Some (- 6 / 43)"
    by (simp add: validate_source_def example_env_def example_generate_def source_metrics_def
        mean_def Let_def map_add_def)
  have v3: "\<exists>m. validate_source example_env example_generate ?g
              ''data/wiki/test.jsonl/shard.chunk.00.val.jsonl'' = Inr m"
    by (simp add: validate_source_def example_env_def example_generate_def Let_def)
  from v1 v2 v3 obtain n1 n2 n3 where
    n1: "validate_source example_env example_generate ?g
              ''data/en/val.jsonl/shard.chunk.00.val.jsonl'' = Inr n1"
      "n1 ''nll_per_char'' = Some (- 1 / 7)"
    and n2: "validate_source example_env example_generate ?g
              ''data/fra/val.jsonl/shard.chunk.00.val.jsonl'' = Inr n2"
      "n2 ''nll_per_char'' = Some (- 6 / 43)"
    and n3: "validate_source example_env example_generate ?g
              ''data/wiki/test.jsonl/shard.chunk.00.val.jsonl'' = Inr n3"
    by blast
  have p: "path_to_iter example_env
         [''data/en/val.jsonl'', ''data/wiki/test.jsonl'', ''data/fra/val.jsonl''] [] =
      Inr [(''data/en/val.jsonl'', ''data/en/val.jsonl/shard.chunk.00.val.jsonl''),
           (''data/wiki/test.jsonl'', ''data/wiki/test.jsonl/shard.chunk.00.val.jsonl''),
           (''data/fra/val.jsonl'', ''data/fra/val.jsonl/shard.chunk.00.val.jsonl'')]"
    by (simp add: example_env_def)
  have "\<exists>res. val_loop example_env example_generate ?g
      [(''data/en/val.jsonl'', ''data/en/val.jsonl/shard.chunk.00.val.jsonl''),
       (''data/wiki/test.jsonl'', ''data/wiki/test.jsonl/shard.chunk.00.val.jsonl''),
       (''data/fra/val.jsonl'', ''data/fra/val.jsonl/shard.chunk.00.val.jsonl'')] Map.empty
      = Inr res"
    by (simp add: n1 n2 n3 Let_def)
  then obtain res where
    "eval_on_val example_env example_generate example_generator ?args example_train_cfg
       = (example_generator, Inr res)"
    using s p by (auto simp: eval_on_val_def Let_def)
  note run = this
  have b: "basename ''data/en/val.jsonl'' = ''val.jsonl''"
    "basename ''data/fra/val.jsonl'' = ''val.jsonl''"
    by (simp_all add: basename_def)
  have d: "distinct (srcs ?args example_train_cfg)"
    unfolding s by simp
  have o: "\<forall>q \<in> set ([] @ [''data/wiki/test.jsonl''] @ []). basename q \<noteq> ''val.jsonl'' \<and>
      basename q \<noteq> ''val.jsonl'' @ ''_1'' \<and> basename q @ ''_1'' \<noteq> ''val.jsonl''"
    by (simp add: basename_def)
  from duplicate_basename_renamed [OF run s d b o] c obtain m1 m2 where
    "validate_source example_env example_generate ?g
        ''data/en/val.jsonl/shard.chunk.00.val.jsonl'' = Inr m1"
    "validate_source example_env example_generate ?g
        ''data/fra/val.jsonl/shard.chunk.00.val.jsonl'' = Inr m2"
    "res ''val.jsonl'' = Some m1" "res (''val.jsonl'' @ ''_1'') = Some m2"
    by auto
  with n1 n2 have "res ''val.jsonl'' = Some n1" "res ''val.jsonl_1'' = Some n2"
    by simp_all
  with run n1(2) n2(2) show ?thesis by auto
qed

section \<open>Properties of the evaluation driver\<close>

lemma quiet_ret: "quiet Q (ret a)"
  by (simp add: quiet_def ret_def)

lemma quiet_emit: "\<not> after_abort ev \<Longrightarrow> quiet Q (emit ev)"
  by (simp add: quiet_def emit_def)

lemma quiet_lift: "(\<And>err. r = Inl err \<Longrightarrow> Q err) \<Longrightarrow> quiet Q (lift r)"
  by (simp add: quiet_def lift_def)

lemma quiet_bind:
  assumes m: "quiet Q m" and f: "\<And>a. quiet Q (f a)"
  shows "quiet Q (bind m f)"
  unfolding quiet_def
proof
  fix tr
  from m obtain evs r where 1: "m tr = (tr @ evs, r)" "\<not> list_ex after_abort evs"
    "\<forall>err. r = Inl err \<longrightarrow> Q err"
    unfolding quiet_def by blast
  show "\<exists>evs r. bind m f tr = (tr @ evs, r) \<and> \<not> list_ex after_abort evs \<and>
      (\<forall>err. r = Inl err \<longrightarrow> Q err)"
  proof (cases r)
    case (Inl err)
    with 1 show ?thesis by (simp add: bind_def)
  next
    case (Inr a)
    from f [of a] obtain evs' r' where 2: "f a (tr @ evs) = ((tr @ evs) @ evs', r')"
      "\<not> list_ex after_abort evs'" "\<forall>err. r' = Inl err \<longrightarrow> Q err"
      unfolding quiet_def by blast
    have "bind m f tr = (tr @ (evs @ evs'), r')"
      using 1 2 Inr by (simp add: bind_def)
    moreover have "\<not> list_ex after_abort (evs @ evs')"
      using 1 2 by simp
    ultimately show ?thesis using 2(3) by blast
  qed
qed

lemma aborts_bind:
  assumes m: "quiet Q m" and f: "\<And>a. aborts Q (f a)"
  shows "aborts Q (bind m f)"
  unfolding aborts_def
proof
  fix tr
  from m obtain evs r where 1: "m tr = (tr @ evs, r)" "\<not> list_ex after_abort evs"
    "\<forall>err. r = Inl err \<longrightarrow> Q err"
    unfolding quiet_def by blast
  show "\<exists>evs err. bind m f tr = (tr @ evs, Inl err) \<and> \<not> list_ex after_abort evs \<and> Q err"
  proof (cases r)
    case (Inl err)
    with 1 show ?thesis by (simp add: bind_def)
  next
    case (Inr a)
    from f [of a] obtain evs' err where 2: "f a (tr @ evs) = ((tr @ evs) @ evs', Inl err)"
      "\<not> list_ex after_abort evs'" "Q err"
      unfolding aborts_def by blast
    have "bind m f tr = (tr @ (evs @ evs'), Inl err)"
      using 1 2 Inr by (simp add: bind_def)
    moreover have "\<not> list_ex after_abort (evs @ evs')"
      using 1 2 by simp
    ultimately show ?thesis using 2(3) by blast
  qed
qed

lemma aborts_raise_bind: "Q err \<Longrightarrow> aborts Q (bind (raise err) f)"
  by (simp add: aborts_def bind_def raise_def)

lemma quiet_consolidate_path_of: "quiet Q (consolidate_path_of E eval_args)"
  by (auto simp: consolidate_path_of_def Let_def intro!: quiet_bind quiet_emit quiet_ret)

lemma quiet_ppl_path:
  assumes "\<And>v err. validation eval_args = Some v \<Longrightarrow>
     eval_ppl_on_path E (tokenizer_name train_cfg)
       ''/checkpoint/amaia/explore/datasets/dclm_baseline_1.0/'' (max_n_docs v) = Inl err \<Longrightarrow>
     Q err"
  shows "quiet Q (ppl_path E eval_args train_cfg)"
proof (cases "validation eval_args")
  case None
  then show ?thesis by (simp add: ppl_path_def quiet_ret)
next
  case (Some v)
  show ?thesis unfolding ppl_path_def Some option.case
    by (intro quiet_bind quiet_emit quiet_lift assms [OF Some]) simp_all
qed

text \<open>
  C9. Every run of \<^verbatim>\<open>launch_eval\<close> ends in an exception, and none of the statements after
  the \<^verbatim>\<open>raise\<close> of line 344 is reached: the generator and the harness adapter are not
  constructed, \<^verbatim>\<open>eval_on_val\<close> is not called and no result is written. The exception is
  the one of line 344 (a \<^verbatim>\<open>NameError\<close>, the raised name being undefined), unless the
  checkpoint loader or the perplexity evaluation has raised before.
\<close>

theorem launch_eval_aborts_before_harness:
  "\<exists>evs err.
     launch_eval E G eval_args tr = (tr @ evs, Inl err) \<and>
     \<not> list_ex after_abort evs \<and>
     (err = NameError \<or>
      (\<exists>path. load_consolidated_model_and_tokenizer E path = Inl err) \<or>
      (\<exists>v (train_cfg :: TrainArgs). validation eval_args = Some v \<and>
         eval_ppl_on_path E (tokenizer_name train_cfg)
           ''/checkpoint/amaia/explore/datasets/dclm_baseline_1.0/'' (max_n_docs v) = Inl err))"
proof -
  let ?Q = "\<lambda>err. err = NameError \<or>
      (\<exists>path. load_consolidated_model_and_tokenizer E path = Inl err) \<or>
      (\<exists>v (train_cfg :: TrainArgs). validation eval_args = Some v \<and>
         eval_ppl_on_path E (tokenizer_name train_cfg)
           ''/checkpoint/amaia/explore/datasets/dclm_baseline_1.0/'' (max_n_docs v) = Inl err)"
  have init: "quiet ?Q (if \<not> is_initialized E then emit SetupTorchDistributed else ret ())"
    by (simp add: quiet_emit quiet_ret)
  have load: "quiet ?Q (lift (load_consolidated_model_and_tokenizer E path))" for path
    by (rule quiet_lift) blast
  have ppl: "quiet ?Q (ppl_path E eval_args train_cfg)" for train_cfg
    by (rule quiet_ppl_path) blast
  have abort: "aborts ?Q (bind (raise NameError) f)" for f :: "unit \<Rightarrow> unit run"
    by (rule aborts_raise_bind) simp
  have "aborts ?Q (launch_eval E G eval_args)"
    unfolding launch_eval_def
    by (intro aborts_bind init quiet_consolidate_path_of quiet_emit load ppl abort) simp_all
  then show ?thesis unfolding aborts_def by blast
qed

theorem launch_eval_aborts_before_harness_witness:
  "launch_eval example_env example_generate example_eval_args [] =
     ([Mkdirs ''dump'', DumpConfig ''dump/config.yaml'', Barrier, LoadModel ''ckpt'',
       EvalPplOnPath, PrintValResults], Inl NameError) \<and>
   \<not> list_ex after_abort
       (fst (launch_eval example_env example_generate example_eval_args []))"
proof -
  have run: "launch_eval example_env example_generate example_eval_args [] =
     ([Mkdirs ''dump'', DumpConfig ''dump/config.yaml'', Barrier, LoadModel ''ckpt'',
       EvalPplOnPath, PrintValResults], Inl NameError)"
    by (simp add: launch_eval_def bind_def emit_def ret_def raise_def lift_def
      consolidate_path_of_def ppl_path_def example_eval_args_def example_env_def
      path_join_def suffix_to_prefix eval_ppl_on_path_def example_train_cfg_def
      example_batch_def cross_entropy_sum_def Let_def)
  from launch_eval_aborts_before_harness [of example_env example_generate example_eval_args "[]"]
  obtain evs err where
    "launch_eval example_env example_generate example_eval_args [] = ([] @ evs, Inl err)"
    and "\<not> list_ex after_abort evs"
    by blast
  then have "\<not> list_ex after_abort
       (fst (launch_eval example_env example_generate example_eval_args []))"
    by simp
  with run show ?thesis by (rule conjI)
qed

end
